theory Spec2Isabelle
  imports Main "HOL-Library.Word" "HOL-Library.Multiset"
begin

unbundle bit_operations_syntax

section \<open>Interface flags (ifinfmsg.py, lines 7 to 44)\<close>

text \<open>
  The module-level flag constants. Python integers are unbounded, so they are
  modelled as \<^typ>\<open>int\<close>; \<open>|\<close> is \<open>OR\<close> and \<open>&\<close> is \<open>AND\<close>.
\<close>

definition IFF_UP :: int where "IFF_UP = 0x1"
definition IFF_BROADCAST :: int where "IFF_BROADCAST = 0x2"
definition IFF_DEBUG :: int where "IFF_DEBUG = 0x4"
definition IFF_LOOPBACK :: int where "IFF_LOOPBACK = 0x8"
definition IFF_POINTOPOINT :: int where "IFF_POINTOPOINT = 0x10"
definition IFF_NOTRAILERS :: int where "IFF_NOTRAILERS = 0x20"
definition IFF_RUNNING :: int where "IFF_RUNNING = 0x40"
definition IFF_NOARP :: int where "IFF_NOARP = 0x80"
definition IFF_PROMISC :: int where "IFF_PROMISC = 0x100"
definition IFF_ALLMULTI :: int where "IFF_ALLMULTI = 0x200"
definition IFF_MASTER :: int where "IFF_MASTER = 0x400"
definition IFF_SLAVE :: int where "IFF_SLAVE = 0x800"
definition IFF_MULTICAST :: int where "IFF_MULTICAST = 0x1000"
definition IFF_PORTSEL :: int where "IFF_PORTSEL = 0x2000"
definition IFF_AUTOMEDIA :: int where "IFF_AUTOMEDIA = 0x4000"
definition IFF_DYNAMIC :: int where "IFF_DYNAMIC = 0x8000"
definition IFF_LOWER_UP :: int where "IFF_LOWER_UP = 0x10000"
definition IFF_DORMANT :: int where "IFF_DORMANT = 0x20000"
definition IFF_ECHO :: int where "IFF_ECHO = 0x40000"

definition IFF_MASK :: int where
  "IFF_MASK = IFF_UP OR IFF_DEBUG OR IFF_NOTRAILERS OR IFF_NOARP OR IFF_PROMISC OR IFF_ALLMULTI"

definition IFF_VOLATILE :: int where
  "IFF_VOLATILE = IFF_LOOPBACK OR IFF_POINTOPOINT OR IFF_BROADCAST OR IFF_ECHO OR
     IFF_MASTER OR IFF_SLAVE OR IFF_RUNNING OR IFF_LOWER_UP OR IFF_DORMANT"

section \<open>Errors\<close>

text \<open>
  Every exception the modelled code can raise is a value. The names follow the
  error taxonomy of the specification; the Python exception behind each is noted.
\<close>

datatype error =
    IndexError \<comment> \<open>\<open>flag[0]\<close> on an empty flag name\<close>
  | UnknownFlagName string \<comment> \<open>\<open>KeyError\<close> of \<open>IFF_NAMES[flag]\<close>\<close>
  | UnknownStateName string \<comment> \<open>\<open>KeyError\<close> of \<open>state_by_name[self.value]\<close>\<close>
  | UnknownStateCode int \<comment> \<open>\<open>KeyError\<close> of \<open>state_by_code[self['value']]\<close>\<close>
  | StructError \<comment> \<open>\<open>struct.error\<close>: value not representable in the format\<close>
  | TruncatedRecord \<comment> \<open>fewer bytes than a fixed field needs\<close>
  | TruncatedCounters \<comment> \<open>counter block shorter than width times name count\<close>
  | ResourceOpenFailure string \<comment> \<open>\<open>OSError\<close> of \<open>os.open\<close>\<close>
  | BadFileDescriptor int \<comment> \<open>\<open>OSError\<close> of \<open>os.close\<close>\<close>

section \<open>The flag catalogue and the flag translator (lines 27, 137 to 155)\<close>

text \<open>
  \<open>(IFF_NAMES, IFF_VALUES) = map_namespace('IFF', globals())\<close>: the function
  \<open>map_namespace\<close> lives in \<open>pyroute2.common\<close>, outside the source at hand, so the
  catalogue it builds is a parameter of the translator: a list of (name, value)
  entries in declaration order. \<open>IFF_NAMES\<close> is the dictionary from name to value,
  \<open>IFF_VALUES\<close> the dictionary from value to name, iterated in the order of the
  catalogue. The variable \<open>mask\<close> of the source is written \<open>msk\<close>.
\<close>

type_synonym catalogue = "(string \<times> int) list"

definition IFF_NAMES :: "catalogue \<Rightarrow> string \<rightharpoonup> int" where
  "IFF_NAMES cat = map_of cat"

definition IFF_VALUES :: "catalogue \<Rightarrow> (int \<times> string) list" where
  "IFF_VALUES cat = map (\<lambda>(name, v). (v, name)) cat"

text \<open>
  The catalogue of the module: the nineteen globals of lines 7 to 25 whose names
  start with \<open>IFF\<close> when line 27 runs, under the names the module gives them.
  \<open>IFF_MASK\<close> and \<open>IFF_VOLATILE\<close> are defined later and are not part of it.
\<close>

definition IFF_catalogue :: catalogue where
  "IFF_catalogue =
    [(''IFF_UP'', IFF_UP), (''IFF_BROADCAST'', IFF_BROADCAST), (''IFF_DEBUG'', IFF_DEBUG),
     (''IFF_LOOPBACK'', IFF_LOOPBACK), (''IFF_POINTOPOINT'', IFF_POINTOPOINT),
     (''IFF_NOTRAILERS'', IFF_NOTRAILERS), (''IFF_RUNNING'', IFF_RUNNING),
     (''IFF_NOARP'', IFF_NOARP), (''IFF_PROMISC'', IFF_PROMISC),
     (''IFF_ALLMULTI'', IFF_ALLMULTI), (''IFF_MASTER'', IFF_MASTER),
     (''IFF_SLAVE'', IFF_SLAVE), (''IFF_MULTICAST'', IFF_MULTICAST),
     (''IFF_PORTSEL'', IFF_PORTSEL), (''IFF_AUTOMEDIA'', IFF_AUTOMEDIA),
     (''IFF_DYNAMIC'', IFF_DYNAMIC), (''IFF_LOWER_UP'', IFF_LOWER_UP),
     (''IFF_DORMANT'', IFF_DORMANT), (''IFF_ECHO'', IFF_ECHO)]"

text \<open>
  \<open>flags2names\<close>: the loop \<open>for flag in IFF_VALUES\<close> appends \<open>IFF_VALUES[flag]\<close>
  whenever \<open>(flag & mask & flags) == flag\<close>.
\<close>

fun flags2names_loop :: "(int \<times> string) list \<Rightarrow> int \<Rightarrow> int \<Rightarrow> string list \<Rightarrow> string list" where
  "flags2names_loop [] flags msk ret = ret"
| "flags2names_loop ((flag, name) # rest) flags msk ret =
     flags2names_loop rest flags msk
       (if (flag AND msk AND flags) = flag then ret @ [name] else ret)"

definition flags2names :: "catalogue \<Rightarrow> int \<Rightarrow> int \<Rightarrow> string list" where
  "flags2names cat flags msk = flags2names_loop (IFF_VALUES cat) flags msk []"

text \<open>The default argument \<open>mask=0xffffffff\<close>.\<close>

definition flags2names_default :: "catalogue \<Rightarrow> int \<Rightarrow> string list" where
  "flags2names_default cat flags = flags2names cat flags 0xffffffff"

text \<open>
  \<open>names2flags\<close>: \<open>flag[0]\<close> raises on an empty name; a name that starts with
  \<open>!\<close> loses the mark and goes to \<open>mask\<close> only; any other name goes to
  \<open>ret\<close> and to \<open>mask\<close>. A name the catalogue does not hold raises.
\<close>

fun names2flags_loop :: "catalogue \<Rightarrow> string list \<Rightarrow> int \<Rightarrow> int \<Rightarrow> error + (int \<times> int)" where
  "names2flags_loop cat [] ret msk = Inr (ret, msk)"
| "names2flags_loop cat (flag # flags) ret msk =
     (case flag of
        [] \<Rightarrow> Inl IndexError
      | c # cs \<Rightarrow>
          if c = CHR ''!'' then
            (case IFF_NAMES cat cs of
               None \<Rightarrow> Inl (UnknownFlagName cs)
             | Some b \<Rightarrow> names2flags_loop cat flags ret (msk OR b))
          else
            (case IFF_NAMES cat flag of
               None \<Rightarrow> Inl (UnknownFlagName flag)
             | Some b \<Rightarrow> names2flags_loop cat flags (ret OR b) (msk OR b)))"

definition names2flags :: "catalogue \<Rightarrow> string list \<Rightarrow> error + (int \<times> int)" where
  "names2flags cat flags = names2flags_loop cat flags 0 0"

subsection \<open>Vocabulary for the properties of the translator\<close>

definition negated :: "string \<Rightarrow> bool" where
  "negated x = (case x of [] \<Rightarrow> False | c # cs \<Rightarrow> c = CHR ''!'')"

definition base_name :: "string \<Rightarrow> string" where
  "base_name x = (case x of [] \<Rightarrow> [] | c # cs \<Rightarrow> if c = CHR ''!'' then cs else x)"

definition non_negated :: "string list \<Rightarrow> string list" where
  "non_negated L = filter (\<lambda>x. \<not> negated x) L"

text \<open>
  A well-formed catalogue: names and values are pairwise different, no name is
  empty or starts with the negation mark, and every value is one bit of a 32-bit mask.
\<close>

definition single_bit :: "int \<Rightarrow> bool" where
  "single_bit v = (v \<in> set (map (\<lambda>k. 2 ^ k) [0..<32]))"

definition wf_catalogue :: "catalogue \<Rightarrow> bool" where
  "wf_catalogue cat =
     (distinct (map fst cat) \<and> distinct (map snd cat) \<and>
      list_all (\<lambda>(name, v). \<not> negated name \<and> name \<noteq> [] \<and> single_bit v) cat)"

definition or_list :: "int list \<Rightarrow> int" where
  "or_list vs = foldr (OR) vs 0"

section \<open>The message encoder (lines 157 to 161)\<close>

text \<open>
  \<open>self['flags']\<close> holds either a collection of flag names (set, tuple or list;
  modelled as a list) or a number. \<open>encode\<close> converts the former and then calls
  the encoder of the base class, which is outside the source at hand and is the
  parameter \<open>super_encode\<close>. The message is mutated in place, so the model returns
  it next to the result; when \<open>names2flags\<close> raises, nothing has been assigned.
\<close>

datatype flags_value = FlagNames "string list" | FlagBits int

record ifinfmsg =
  msg_family :: int
  msg_ifi_type :: int
  msg_index :: int
  msg_flags :: flags_value
  msg_change :: int

definition ifinfbase_encode ::
  "catalogue \<Rightarrow> (ifinfmsg \<Rightarrow> error + 'b) \<Rightarrow> ifinfmsg \<Rightarrow> (error + 'b) \<times> ifinfmsg" where
  "ifinfbase_encode cat super_encode self =
     (case msg_flags self of
        FlagNames names \<Rightarrow>
          (case names2flags cat names of
             Inl e \<Rightarrow> (Inl e, self)
           | Inr (v, m) \<Rightarrow>
               (let self' = self\<lparr>msg_flags := FlagBits v, msg_change := m\<rparr>
                in (super_encode self', self')))
      | FlagBits n \<Rightarrow> (super_encode self, self))"

section \<open>Fixed-width fields\<close>

text \<open>
  The format characters are those of Python's \<open>struct\<close> module, with its standard
  sizes: \<open>B\<close> one byte, \<open>H\<close> two, \<open>i\<close> (signed) and \<open>I\<close> four, \<open>Q\<close> eight.
\<close>

type_synonym byte = "8 word"
type_synonym fields = "(string \<times> string) list"

datatype byte_order = LittleEndian | BigEndian

definition calcsize :: "string \<Rightarrow> nat option" where
  "calcsize fmt =
     (if fmt = ''B'' then Some 1
      else if fmt = ''H'' then Some 2
      else if fmt = ''i'' then Some 4
      else if fmt = ''I'' then Some 4
      else if fmt = ''Q'' then Some 8
      else None)"

fun fields_size :: "fields \<Rightarrow> nat option" where
  "fields_size [] = Some 0"
| "fields_size ((name, fmt) # fs) =
     (case calcsize fmt of
        None \<Rightarrow> None
      | Some n \<Rightarrow> (case fields_size fs of None \<Rightarrow> None | Some k \<Rightarrow> Some (n + k)))"

fun le_bytes :: "nat \<Rightarrow> int \<Rightarrow> byte list" where
  "le_bytes 0 v = []"
| "le_bytes (Suc n) v = word_of_int v # le_bytes n (v div 256)"

fun le_int :: "byte list \<Rightarrow> int" where
  "le_int [] = 0"
| "le_int (b # bs) = uint b + 256 * le_int bs"

definition ordered :: "byte_order \<Rightarrow> byte list \<Rightarrow> byte list" where
  "ordered bo bs = (case bo of LittleEndian \<Rightarrow> bs | BigEndian \<Rightarrow> rev bs)"

definition in_range :: "string \<Rightarrow> int \<Rightarrow> bool" where
  "in_range fmt v =
     (case calcsize fmt of
        None \<Rightarrow> False
      | Some n \<Rightarrow>
          if fmt = ''i'' then - (2 ^ (8 * n - 1)) \<le> v \<and> v < 2 ^ (8 * n - 1)
          else 0 \<le> v \<and> v < 2 ^ (8 * n))"

text \<open>\<open>struct.pack\<close> and \<open>struct.unpack\<close> of one number.\<close>

definition pack :: "byte_order \<Rightarrow> string \<Rightarrow> int \<Rightarrow> error + byte list" where
  "pack bo fmt v =
     (case calcsize fmt of
        None \<Rightarrow> Inl StructError
      | Some n \<Rightarrow> if in_range fmt v then Inr (ordered bo (le_bytes n v)) else Inl StructError)"

definition unpack :: "byte_order \<Rightarrow> string \<Rightarrow> byte list \<Rightarrow> error + int" where
  "unpack bo fmt bs =
     (case calcsize fmt of
        None \<Rightarrow> Inl StructError
      | Some n \<Rightarrow>
          if length bs \<noteq> n then Inl StructError
          else
            (let u = le_int (ordered bo bs)
             in Inr (if fmt = ''i'' \<and> 2 ^ (8 * n - 1) \<le> u then u - 2 ^ (8 * n) else u)))"

text \<open>
  Modelled from the spec: the encoder and decoder of the base classes \<open>nlmsg\<close> and
  \<open>nla\<close> (\<open>pyroute2.netlink\<close>) are missing from the source at hand. Following the
  Primitive Field Codec of the specification, the fixed fields are written one after
  the other in declaration order, packed contiguously in the byte order of the
  platform, and read back in the same order; a buffer shorter than a field needs is
  an error. A field the message does not bind is written as 0, as the alignment pad
  always is.
\<close>

definition field_value :: "(string \<rightharpoonup> int) \<Rightarrow> string \<Rightarrow> int" where
  "field_value vals name = (case vals name of None \<Rightarrow> 0 | Some v \<Rightarrow> v)"

fun encode_fields :: "byte_order \<Rightarrow> fields \<Rightarrow> (string \<rightharpoonup> int) \<Rightarrow> error + byte list" where
  "encode_fields bo [] vals = Inr []"
| "encode_fields bo ((name, fmt) # fs) vals =
     (case pack bo fmt (field_value vals name) of
        Inl e \<Rightarrow> Inl e
      | Inr bs \<Rightarrow>
          (case encode_fields bo fs vals of
             Inl e \<Rightarrow> Inl e
           | Inr rest \<Rightarrow> Inr (bs @ rest)))"

fun decode_fields ::
  "byte_order \<Rightarrow> fields \<Rightarrow> byte list \<Rightarrow> (string \<rightharpoonup> int) \<Rightarrow> error + ((string \<rightharpoonup> int) \<times> byte list)" where
  "decode_fields bo [] bs vals = Inr (vals, bs)"
| "decode_fields bo ((name, fmt) # fs) bs vals =
     (case calcsize fmt of
        None \<Rightarrow> Inl StructError
      | Some n \<Rightarrow>
          if length bs < n then Inl TruncatedRecord
          else
            (case unpack bo fmt (take n bs) of
               Inl e \<Rightarrow> Inl e
             | Inr v \<Rightarrow> decode_fields bo fs (drop n bs) (vals(name \<mapsto> v))))"

text \<open>
  What decoding an encoded message yields: the names of the field table bound to
  the values that were written, every other name as it was.
\<close>

definition overlay :: "fields \<Rightarrow> (string \<rightharpoonup> int) \<Rightarrow> (string \<rightharpoonup> int) \<Rightarrow> (string \<rightharpoonup> int)" where
  "overlay fs vals acc = (\<lambda>k. if k \<in> fst ` set fs then Some (field_value vals k) else acc k)"

section \<open>The message header (lines 93 to 98)\<close>

definition ifinfbase_fields :: fields where
  "ifinfbase_fields =
     [(''family'', ''B''), (''__align'', ''B''), (''ifi_type'', ''H''),
      (''index'', ''i''), (''flags'', ''I''), (''change'', ''I'')]"

text \<open>
  Modelled from the spec: the header part of the base encoder, missing from the
  source at hand: the fixed fields of the message through the field codec above. A
  \<open>flags\<close> field that still holds names cannot be packed as a number.
\<close>

definition ifinfmsg_encode_header :: "byte_order \<Rightarrow> ifinfmsg \<Rightarrow> error + byte list" where
  "ifinfmsg_encode_header bo self =
     (case msg_flags self of
        FlagNames names \<Rightarrow> Inl StructError
      | FlagBits f \<Rightarrow>
          encode_fields bo ifinfbase_fields
            [''family'' \<mapsto> msg_family self, ''ifi_type'' \<mapsto> msg_ifi_type self,
             ''index'' \<mapsto> msg_index self, ''flags'' \<mapsto> f, ''change'' \<mapsto> msg_change self])"

section \<open>Operational state (lines 46 to 54 and 198 to 207)\<close>

definition states :: "string list" where
  "states = [''UNKNOWN'', ''NOTPRESENT'', ''DOWN'', ''LOWERLAYERDOWN'', ''TESTING'',
     ''DORMANT'', ''UP'']"

text \<open>Python's \<open>enumerate\<close>, and \<open>dict\<close> of a list of pairs, where a later pair wins.\<close>

definition py_enumerate :: "'a list \<Rightarrow> (int \<times> 'a) list" where
  "py_enumerate xs = zip (map int [0..<length xs]) xs"

definition py_dict :: "('k \<times> 'v) list \<Rightarrow> 'k \<rightharpoonup> 'v" where
  "py_dict ps = map_of (rev ps)"

definition state_by_name :: "string \<rightharpoonup> int" where
  "state_by_name = py_dict (map (\<lambda>i. (snd i, fst i)) (py_enumerate states))"

definition state_by_code :: "int \<rightharpoonup> string" where
  "state_by_code = py_dict (py_enumerate states)"

definition state_fields :: fields where
  "state_fields = [(''value'', ''B'')]"

text \<open>
  \<open>state.encode\<close> looks the name up and hands the code to the base encoder;
  \<open>state.decode\<close> lets the base decoder read the byte and looks the code up. Both
  lookups raise on a missing key.
\<close>

definition state_encode :: "byte_order \<Rightarrow> string \<Rightarrow> error + byte list" where
  "state_encode bo v =
     (case state_by_name v of
        None \<Rightarrow> Inl (UnknownStateName v)
      | Some code \<Rightarrow> encode_fields bo state_fields [''value'' \<mapsto> code])"

definition state_decode :: "byte_order \<Rightarrow> byte list \<Rightarrow> error + string" where
  "state_decode bo bs =
     (case decode_fields bo state_fields bs Map.empty of
        Inl e \<Rightarrow> Inl e
      | Inr (vals, rest) \<Rightarrow>
          (case state_by_code (field_value vals ''value'') of
             None \<Rightarrow> Inl (UnknownStateCode (field_value vals ''value''))
           | Some name \<Rightarrow> Inr name))"

section \<open>Counter blocks (lines 55 to 77 and 209 to 213)\<close>

definition stats_names :: "string list" where
  "stats_names =
     [''rx_packets'', ''tx_packets'', ''rx_bytes'', ''tx_bytes'', ''rx_errors'',
      ''tx_errors'', ''rx_dropped'', ''tx_dropped'', ''multicast'', ''collisions'',
      ''rx_length_errors'', ''rx_over_errors'', ''rx_crc_errors'', ''rx_frame_errors'',
      ''rx_fifo_errors'', ''rx_missed_errors'', ''tx_aborted_errors'',
      ''tx_carrier_errors'', ''tx_fifo_errors'', ''tx_heartbeat_errors'',
      ''tx_window_errors'', ''rx_compressed'', ''tx_compressed'']"

definition ifstats_fields :: fields where
  "ifstats_fields = map (\<lambda>i. (i, ''I'')) stats_names"

definition ifstats64_fields :: fields where
  "ifstats64_fields = map (\<lambda>i. (i, ''Q'')) stats_names"

text \<open>
  Modelled from the spec: the codec of a counter block is the one the classes
  \<open>ifstats\<close> and \<open>ifstats64\<close> inherit from \<open>nla\<close>, which is missing from the source
  at hand. Following the Counter Block Codec of the specification, decoding reads one
  unsigned number per name in declaration order and fails with \<open>TruncatedCounters\<close>
  when the payload is shorter than width times name count; encoding is its inverse.
  The width is that of the field table: 4 for \<open>ifstats_fields\<close>, 8 for
  \<open>ifstats64_fields\<close>.
\<close>

definition encode_counters :: "byte_order \<Rightarrow> fields \<Rightarrow> (string \<rightharpoonup> int) \<Rightarrow> error + byte list" where
  "encode_counters bo fs vals = encode_fields bo fs vals"

definition decode_counters :: "byte_order \<Rightarrow> fields \<Rightarrow> byte list \<Rightarrow> error + (string \<rightharpoonup> int)" where
  "decode_counters bo fs bs =
     (case fields_size fs of
        None \<Rightarrow> Inl StructError
      | Some n \<Rightarrow>
          if length bs < n then Inl TruncatedCounters
          else
            (case decode_fields bo fs bs Map.empty of
               Inl e \<Rightarrow> Inl e
             | Inr (vals, rest) \<Rightarrow> Inr vals))"

text \<open>A complete counter mapping to try the codec on: the names numbered from 1.\<close>

definition sample_counters :: "string \<rightharpoonup> int" where
  "sample_counters = map_of (zip stats_names (map int [1..<24]))"

section \<open>The network namespace attribute (lines 163 to 193)\<close>

text \<open>
  The operating system as far as \<open>os.open\<close> and \<open>os.close\<close> show it: the paths that
  can be opened, the descriptors that are open, and the calls made so far. A
  successful open returns the lowest descriptor that is free; closing a descriptor
  that is not open raises.
\<close>

datatype os_call = OsOpen string | OsClose int

record os_state =
  os_files :: "string list"
  os_open_fds :: "int list"
  os_calls :: "os_call list"

definition lowest_free :: "int list \<Rightarrow> int" where
  "lowest_free fds =
     (case find (\<lambda>n. n \<notin> set fds) (map int [0..<Suc (length fds)]) of
        Some n \<Rightarrow> n
      | None \<Rightarrow> int (length fds))"

definition os_open :: "string \<Rightarrow> os_state \<Rightarrow> (error + int) \<times> os_state" where
  "os_open path os =
     (let os1 = os\<lparr>os_calls := os_calls os @ [OsOpen path]\<rparr>
      in if path \<in> set (os_files os)
         then (let fd = lowest_free (os_open_fds os)
               in (Inr fd, os1\<lparr>os_open_fds := fd # os_open_fds os\<rparr>))
         else (Inl (ResourceOpenFailure path), os1))"

definition os_close :: "int \<Rightarrow> os_state \<Rightarrow> (error + unit) \<times> os_state" where
  "os_close fd os =
     (let os1 = os\<lparr>os_calls := os_calls os @ [OsClose fd]\<rparr>
      in if fd \<in> set (os_open_fds os)
         then (Inr (), os1\<lparr>os_open_fds := removeAll fd (os_open_fds os)\<rparr>)
         else (Inl (BadFileDescriptor fd), os1))"

text \<open>
  The attribute object: \<open>self.value\<close> (a number or a file name), the field
  \<open>self['value']\<close> that goes to the wire, and \<open>self.netns_fd\<close>, which is \<open>None\<close>
  in a fresh object.
\<close>

datatype netns_value = IntValue int | NameValue string

record netns_fd_nla =
  self_value :: netns_value
  self_field_value :: "int option"
  self_netns_fd :: "int option"

definition netns_fd_fields :: fields where
  "netns_fd_fields = [(''value'', ''I'')]"

definition netns_run_dir :: string where
  "netns_run_dir = ''/var/run/netns''"

text \<open>\<open>close\<close> closes the recorded descriptor and leaves the record of it in place.\<close>

definition netns_fd_close :: "netns_fd_nla \<Rightarrow> os_state \<Rightarrow> (error + unit) \<times> os_state" where
  "netns_fd_close self os =
     (case self_netns_fd self of
        None \<Rightarrow> (Inr (), os)
      | Some fd \<Rightarrow> os_close fd os)"

text \<open>\<open>__del__\<close> is \<open>close\<close>.\<close>

definition netns_fd_del :: "netns_fd_nla \<Rightarrow> os_state \<Rightarrow> (error + unit) \<times> os_state" where
  "netns_fd_del self os = netns_fd_close self os"

text \<open>
  \<open>encode\<close>. The base encoder \<open>nla.encode\<close> is outside the source at hand and is
  the parameter \<open>nla_encode\<close>; it may fail. The object and the operating system are
  returned next to the result, as an exception leaves both changed.
\<close>

definition netns_fd_encode ::
  "(netns_fd_nla \<Rightarrow> error + 'b) \<Rightarrow> netns_fd_nla \<Rightarrow> os_state \<Rightarrow>
     (error + 'b) \<times> netns_fd_nla \<times> os_state" where
  "netns_fd_encode nla_encode self os =
     (case netns_fd_close self os of
        (Inl e, os1) \<Rightarrow> (Inl e, self, os1)
      | (Inr u, os1) \<Rightarrow>
          (case self_value self of
             IntValue n \<Rightarrow>
               (let self1 = self\<lparr>self_field_value := Some n\<rparr>
                in (nla_encode self1, self1, os1))
           | NameValue name \<Rightarrow>
               (case os_open (netns_run_dir @ ''/'' @ name) os1 of
                  (Inl e, os2) \<Rightarrow> (Inl e, self, os2)
                | (Inr fd, os2) \<Rightarrow>
                    (let self1 = self\<lparr>self_netns_fd := Some fd\<rparr>;
                         self2 = self1\<lparr>self_field_value := Some fd\<rparr>
                     in (nla_encode self2, self2, os2)))))"

text \<open>
  Modelled from the spec: the base encoder for this attribute, missing from the
  source at hand, as the Primitive Field Codec applied to the one field
  \<open>('value', 'I')\<close>.
\<close>

definition netns_fd_nla_encode :: "byte_order \<Rightarrow> netns_fd_nla \<Rightarrow> error + byte list" where
  "netns_fd_nla_encode bo self =
     encode_fields bo netns_fd_fields
       (case self_field_value self of None \<Rightarrow> Map.empty | Some v \<Rightarrow> [''value'' \<mapsto> v])"

text \<open>Which calls of the trace are opens.\<close>

fun is_open_call :: "os_call \<Rightarrow> bool" where
  "is_open_call (OsOpen path) = True"
| "is_open_call (OsClose fd) = False"



section \<open>The link-info resolver (lines 223 to 245)\<close>

datatype attr_value = AsciiZ string | UInt int | Hex "byte list"

text \<open>The attribute classes \<open>info_data\<close> chooses from.\<close>

datatype nla_class = vlan_data | bond_data | veth_data | hex

text \<open>
  Modelled from the spec: \<open>get_attr\<close> belongs to the base class \<open>nla\<close>, missing from
  the source at hand. Following the Context-Sensitive Variant Resolver of the
  specification, it reads the value of a named sibling among the attributes decoded
  so far, and yields \<open>None\<close> when there is none.
\<close>

definition get_attr :: "(string \<times> attr_value) list \<Rightarrow> string \<Rightarrow> attr_value option" where
  "get_attr attrs name = map_of attrs name"

definition info_data :: "(string \<times> attr_value) list \<Rightarrow> nla_class" where
  "info_data self =
     (let kind = get_attr self ''IFLA_INFO_KIND''
      in if kind = Some (AsciiZ ''vlan'') then vlan_data
         else if kind = Some (AsciiZ ''bond'') then bond_data
         else if kind = Some (AsciiZ ''veth'') then veth_data
         else hex)"

section \<open>The derived masks\<close>

lemmas IFF_defs =
  IFF_UP_def IFF_BROADCAST_def IFF_DEBUG_def IFF_LOOPBACK_def IFF_POINTOPOINT_def
  IFF_NOTRAILERS_def IFF_RUNNING_def IFF_NOARP_def IFF_PROMISC_def IFF_ALLMULTI_def
  IFF_MASTER_def IFF_SLAVE_def IFF_MULTICAST_def IFF_PORTSEL_def IFF_AUTOMEDIA_def
  IFF_DYNAMIC_def IFF_LOWER_UP_def IFF_DORMANT_def IFF_ECHO_def

lemma IFF_MASK_value: "IFF_MASK = 0x3A5"
  by (simp add: IFF_MASK_def IFF_defs)

lemma IFF_VOLATILE_value: "IFF_VOLATILE = 0x70C5A"
  by (simp add: IFF_VOLATILE_def IFF_defs)

text \<open>
  Claim C9. The settable mask \<open>IFF_MASK\<close> is \<open>0x3A5\<close>, the volatile mask
  \<open>IFF_VOLATILE\<close> is \<open>0x70C5A\<close>, and the two have no bit in common.
\<close>

theorem IFF_MASK_VOLATILE_disjoint:
  "IFF_MASK = 0x3A5 \<and> IFF_VOLATILE = 0x70C5A \<and> IFF_MASK AND IFF_VOLATILE = 0"
  by (simp add: IFF_MASK_value IFF_VOLATILE_value)

section \<open>The flag translator\<close>

lemma flags2names_loop_filter:
  "flags2names_loop vs fl msk ret =
     ret @ map snd (filter (\<lambda>(f, n). (f AND msk AND fl) = f) vs)"
  by (induction vs arbitrary: ret) auto

lemma bit_or_list: "bit (or_list vs) k \<longleftrightarrow> (\<exists>v\<in>set vs. bit v k)"
  by (induction vs) (auto simp: or_list_def bit_or_iff)

lemma names2flags_loop_ok:
  assumes "\<forall>x\<in>set L. x \<noteq> [] \<and> base_name x \<in> dom (IFF_NAMES cat)"
  shows "names2flags_loop cat L r m =
    Inr (r OR or_list (map (\<lambda>x. the (IFF_NAMES cat x)) (non_negated L)),
         m OR or_list (map (\<lambda>x. the (IFF_NAMES cat (base_name x))) L))"
  using assms
proof (induction L arbitrary: r m)
  case Nil
  then show ?case by (simp add: or_list_def non_negated_def)
next
  case (Cons x L)
  from Cons.prems obtain c cs where x: "x = c # cs" by (cases x) auto
  from Cons.prems obtain b where b: "IFF_NAMES cat (base_name x) = Some b" by auto
  have rest: "\<forall>x\<in>set L. x \<noteq> [] \<and> base_name x \<in> dom (IFF_NAMES cat)"
    using Cons.prems by simp
  show ?case
  proof (cases "c = CHR ''!''")
    case True
    then show ?thesis
      using b x Cons.IH [OF rest]
      by (simp add: or_list_def non_negated_def negated_def base_name_def or.assoc)
  next
    case False
    then show ?thesis
      using b x Cons.IH [OF rest]
      by (simp add: or_list_def non_negated_def negated_def base_name_def or.assoc)
  qed
qed

lemma pow2_and_eq: "((2::int) ^ k AND v) = 2 ^ k \<longleftrightarrow> bit v k"
proof
  assume "(2::int) ^ k AND v = 2 ^ k"
  then have "bit ((2::int) ^ k AND v) k = bit ((2::int) ^ k) k" by simp
  then show "bit v k" by (simp add: bit_and_iff bit_exp_iff)
next
  assume "bit v k"
  then show "(2::int) ^ k AND v = 2 ^ k"
    by (intro bit_eqI) (auto simp: bit_and_iff bit_exp_iff)
qed

lemma pow2_and_and_eq: "((2::int) ^ k AND m AND v) = 2 ^ k \<longleftrightarrow> bit m k \<and> bit v k"
  using pow2_and_eq [of k "m AND v"] by (simp add: bit_and_iff)

lemma bit_pow2_int: "bit ((2::int) ^ j) k \<longleftrightarrow> k = j"
  by (simp add: bit_exp_iff)

lemma single_bitE: "single_bit v \<Longrightarrow> \<exists>k<32. v = 2 ^ k"
  by (auto simp: single_bit_def)


lemma wf_catalogue_entry:
  assumes "wf_catalogue cat" "(n, f) \<in> set cat"
  shows "IFF_NAMES cat n = Some f" "\<not> negated n" "n \<noteq> []" "\<exists>k<32. f = 2 ^ k"
  using assms
  by (auto simp: wf_catalogue_def IFF_NAMES_def list_all_iff dest: single_bitE)

lemma wf_catalogue_value_inj:
  assumes "wf_catalogue cat" "(n, f) \<in> set cat" "(n', f) \<in> set cat"
  shows "n' = n"
proof -
  have "inj_on snd (set cat)"
    using assms(1) by (simp add: wf_catalogue_def distinct_map)
  from inj_onD [OF this, of "(n', f)" "(n, f)"] assms(2,3) show ?thesis by simp
qed

lemma base_name_non_negated: "\<not> negated x \<Longrightarrow> base_name x = x"
  by (cases x) (auto simp: negated_def base_name_def)

lemma bit_or_list_names:
  assumes wf: "wf_catalogue cat" and nf: "(n, 2 ^ k) \<in> set cat"
    and S: "set S \<subseteq> fst ` set cat"
  shows "bit (or_list (map (\<lambda>x. the (IFF_NAMES cat x)) S)) k \<longleftrightarrow> n \<in> set S"
proof
  assume "bit (or_list (map (\<lambda>x. the (IFF_NAMES cat x)) S)) k"
  then obtain x where x: "x \<in> set S" "bit (the (IFF_NAMES cat x)) k"
    by (auto simp: bit_or_list)
  from x(1) S obtain g where g: "(x, g) \<in> set cat" by auto
  from wf_catalogue_entry [OF wf g] obtain j where j: "IFF_NAMES cat x = Some g" "g = 2 ^ j"
    by auto
  with x(2) have "k = j" by (simp add: bit_pow2_int)
  with g j have "(x, 2 ^ k) \<in> set cat" by simp
  from wf_catalogue_value_inj [OF wf nf this] x(1) show "n \<in> set S" by simp
next
  assume "n \<in> set S"
  moreover have "bit (the (IFF_NAMES cat n)) k"
    using wf_catalogue_entry(1) [OF wf nf] by (simp add: bit_pow2_int)
  ultimately show "bit (or_list (map (\<lambda>x. the (IFF_NAMES cat x)) S)) k"
    by (auto simp: bit_or_list)
qed

lemma non_negated_subset_base: "set (non_negated L) \<subseteq> set (map base_name L)"
  by (auto simp: non_negated_def base_name_non_negated intro: rev_image_eqI)

lemma distinct_non_negated:
  assumes "distinct (map base_name L)"
  shows "distinct (non_negated L)"
proof -
  have "distinct (map base_name (non_negated L))"
    unfolding non_negated_def using assms by (rule distinct_map_filter)
  moreover have "map base_name (non_negated L) = non_negated L"
    by (induction L) (auto simp: non_negated_def base_name_non_negated)
  ultimately show ?thesis by simp
qed

lemma flags2names_after_names2flags:
  assumes wf: "wf_catalogue cat"
    and names: "\<forall>x\<in>set L. base_name x \<in> fst ` set cat"
    and dist: "distinct (map base_name L)"
  shows "\<exists>v m. names2flags cat L = Inr (v, m) \<and>
           flags2names cat v m = filter (\<lambda>n. n \<in> set (non_negated L)) (map fst cat) \<and>
           mset (flags2names cat v m) = mset (non_negated L)"
proof -
  define v where "v = or_list (map (\<lambda>x. the (IFF_NAMES cat x)) (non_negated L))"
  define m where "m = or_list (map (\<lambda>x. the (IFF_NAMES cat x)) (map base_name L))"
  have dom: "dom (IFF_NAMES cat) = fst ` set cat"
    by (simp add: IFF_NAMES_def dom_map_of_conv_image_fst)
  have nonempty: "x \<noteq> []" if "x \<in> set L" for x
  proof
    assume "x = []"
    with that names have "base_name [] \<in> fst ` set cat" by blast
    then have "[] \<in> fst ` set cat" by (simp add: base_name_def)
    then obtain f where "([], f) \<in> set cat" by auto
    from wf_catalogue_entry(3) [OF wf this] show False by simp
  qed
  have enc: "names2flags cat L = Inr (v, m)"
    unfolding names2flags_def v_def m_def
    using names nonempty by (subst names2flags_loop_ok) (auto simp: dom comp_def)
  have S1: "set (non_negated L) \<subseteq> fst ` set cat"
    using non_negated_subset_base [of L] names by auto
  have S2: "set (map base_name L) \<subseteq> fst ` set cat"
    using names by auto
  have sel: "(f AND m AND v) = f \<longleftrightarrow> n \<in> set (non_negated L)" if "(n, f) \<in> set cat" for n f
  proof -
    from wf_catalogue_entry(4) [OF wf that] obtain k where k: "f = 2 ^ k" by auto
    have "bit v k \<longleftrightarrow> n \<in> set (non_negated L)"
      unfolding v_def using bit_or_list_names [OF wf _ S1] that k by simp
    moreover have "bit m k \<longleftrightarrow> n \<in> set (map base_name L)"
      unfolding m_def using bit_or_list_names [OF wf _ S2] that k by simp
    ultimately show ?thesis
      using non_negated_subset_base [of L] by (auto simp: k pow2_and_and_eq)
  qed
  have dec: "flags2names cat v m = filter (\<lambda>n. n \<in> set (non_negated L)) (map fst cat)"
  proof -
    have "flags2names cat v m =
        map snd (filter (\<lambda>(f, n). (f AND m AND v) = f) (map (\<lambda>(n, f). (f, n)) cat))"
      by (simp add: flags2names_def IFF_VALUES_def flags2names_loop_filter)
    also have "\<dots> = map fst (filter (\<lambda>(n, f). (f AND m AND v) = f) cat)"
      by (induction cat) auto
    also have "\<dots> = map fst (filter (\<lambda>(n, f). n \<in> set (non_negated L)) cat)"
      using sel by (intro arg_cong [where f = "map fst"] filter_cong) auto
    also have "\<dots> = filter (\<lambda>n. n \<in> set (non_negated L)) (map fst cat)"
      by (induction cat) auto
    finally show ?thesis .
  qed
  have "distinct (map fst cat)" using wf by (simp add: wf_catalogue_def)
  then have d1: "distinct (filter (\<lambda>n. n \<in> set (non_negated L)) (map fst cat))" by simp
  have s1: "set (filter (\<lambda>n. n \<in> set (non_negated L)) (map fst cat)) = set (non_negated L)"
    using S1 by auto
  have "mset (filter (\<lambda>n. n \<in> set (non_negated L)) (map fst cat)) = mset (non_negated L)"
    using set_eq_iff_mset_eq_distinct [OF d1 distinct_non_negated [OF dist]] s1 by blast
  with enc dec show ?thesis by simp
qed

lemma wf_IFF_catalogue: "wf_catalogue IFF_catalogue"
  by code_simp

text \<open>
  Claim C2. Let \<open>L\<close> be a list of flag names, each in the catalogue after an
  optional leading \<open>!\<close>, with no base name twice. Then \<open>names2flags\<close> succeeds on
  \<open>L\<close>, and \<open>flags2names\<close> on the pair it returns gives the catalogue's names that
  stand in \<open>L\<close> without the mark, in the order of the catalogue; as a multiset
  these are exactly the non-negated names of \<open>L\<close>.
\<close>

theorem flags2names_names2flags:
  assumes "wf_catalogue cat"
    and "\<forall>x\<in>set L. base_name x \<in> fst ` set cat"
    and "distinct (map base_name L)"
  shows "\<exists>v m. names2flags cat L = Inr (v, m) \<and>
           flags2names cat v m = filter (\<lambda>n. n \<in> set (non_negated L)) (map fst cat) \<and>
           mset (flags2names cat v m) = mset (non_negated L)"
  using assms by (rule flags2names_after_names2flags)

theorem flags2names_names2flags_witness:
  "wf_catalogue IFF_catalogue \<and>
   distinct (map base_name [''IFF_PROMISC'', ''!IFF_DEBUG'', ''IFF_UP'']) \<and>
   names2flags IFF_catalogue [''IFF_PROMISC'', ''!IFF_DEBUG'', ''IFF_UP''] = Inr (0x101, 0x105) \<and>
   flags2names IFF_catalogue 0x101 0x105 = [''IFF_UP'', ''IFF_PROMISC'']"
proof -
  let ?L = "[''IFF_PROMISC'', ''!IFF_DEBUG'', ''IFF_UP'']"
  have names: "\<forall>x\<in>set ?L. base_name x \<in> fst ` set IFF_catalogue"
    by (simp add: base_name_def IFF_catalogue_def)
  have dist: "distinct (map base_name ?L)"
    by (simp add: base_name_def)
  have enc: "names2flags IFF_catalogue ?L = Inr (0x101, 0x105)"
    by (simp add: names2flags_def IFF_NAMES_def IFF_catalogue_def IFF_defs)
  have sel: "filter (\<lambda>n. n \<in> set (non_negated ?L)) (map fst IFF_catalogue)
      = [''IFF_UP'', ''IFF_PROMISC'']"
    by (simp add: non_negated_def negated_def IFF_catalogue_def)
  from flags2names_names2flags [OF wf_IFF_catalogue names dist] enc sel
  have "flags2names IFF_catalogue 0x101 0x105 = [''IFF_UP'', ''IFF_PROMISC'']"
    by auto
  with wf_IFF_catalogue dist enc show ?thesis by simp
qed

lemma flags2names_filter:
  "flags2names cat v m = map fst (filter (\<lambda>(n, f). (f AND m AND v) = f) cat)"
proof -
  have "flags2names cat v m =
      map snd (filter (\<lambda>(f, n). (f AND m AND v) = f) (map (\<lambda>(n, f). (f, n)) cat))"
    by (simp add: flags2names_def IFF_VALUES_def flags2names_loop_filter)
  also have "\<dots> = map fst (filter (\<lambda>(n, f). (f AND m AND v) = f) cat)"
    by (induction cat) auto
  finally show ?thesis .
qed

lemma flags2names_member:
  assumes "distinct (map fst cat)" and "(n, f) \<in> set cat"
  shows "n \<in> set (flags2names cat v m) \<longleftrightarrow> (f AND m AND v) = f"
proof
  assume "n \<in> set (flags2names cat v m)"
  then obtain f' where f': "(n, f') \<in> set cat" "(f' AND m AND v) = f'"
    by (auto simp: flags2names_filter)
  from assms f'(1) have "f' = f" by (meson eq_key_imp_eq_value)
  with f'(2) show "(f AND m AND v) = f" by simp
next
  assume "(f AND m AND v) = f"
  with assms(2) have "(n, f) \<in> set (filter (\<lambda>(n, f). (f AND m AND v) = f) cat)" by simp
  then show "n \<in> set (flags2names cat v m)"
    unfolding flags2names_filter by (force simp del: set_filter)
qed

text \<open>
  Claim C4, as stated: \<open>names2flags\<close> turns \<open>["up", "!promisc"]\<close> into
  \<open>(0x1, 0x101)\<close>. It does not: the catalogue of the module holds the constants
  under their own names, \<open>IFF_UP\<close> and \<open>IFF_PROMISC\<close>, so the lookup of \<open>up\<close> raises.
\<close>

theorem names2flags_up_not_promisc_raises:
  "names2flags IFF_catalogue [''up'', ''!promisc''] = Inl (UnknownFlagName ''up'')"
  by (simp add: names2flags_def IFF_NAMES_def IFF_catalogue_def)

text \<open>
  Claim C4, amended. \<open>names2flags\<close> turns \<open>["IFF_UP", "!IFF_PROMISC"]\<close> into the
  pair \<open>(0x1, 0x101)\<close>, and \<open>flags2names(0x1, 0x101)\<close> is \<open>["IFF_UP"]\<close>. A negated
  name contributes its bit to the mask only. A name of the catalogue is listed on
  decode exactly when its bit is set in value and mask: with \<open>IFF_PROMISC\<close> set in
  the value but not in the mask, or in the mask but not in the value, it is left out.
\<close>

theorem names2flags_IFF_UP_not_IFF_PROMISC:
  "names2flags IFF_catalogue [''IFF_UP'', ''!IFF_PROMISC''] = Inr (0x1, 0x101) \<and>
   flags2names IFF_catalogue 0x1 0x101 = [''IFF_UP''] \<and>
   names2flags IFF_catalogue [''!IFF_PROMISC''] = Inr (0, 0x100) \<and>
   flags2names IFF_catalogue 0x101 0x1 = [''IFF_UP''] \<and>
   flags2names IFF_catalogue 0x101 0x101 = [''IFF_UP'', ''IFF_PROMISC''] \<and>
   ((n, f) \<in> set IFF_catalogue \<longrightarrow>
      (n \<in> set (flags2names IFF_catalogue v m) \<longleftrightarrow> (f AND m AND v) = f))"
proof (intro conjI impI)
  show "names2flags IFF_catalogue [''IFF_UP'', ''!IFF_PROMISC''] = Inr (0x1, 0x101)"
    by (simp add: names2flags_def IFF_NAMES_def IFF_catalogue_def IFF_defs)
  show "flags2names IFF_catalogue 0x1 0x101 = [''IFF_UP'']" by code_simp
  show "names2flags IFF_catalogue [''!IFF_PROMISC''] = Inr (0, 0x100)"
    by (simp add: names2flags_def IFF_NAMES_def IFF_catalogue_def IFF_defs)
  show "flags2names IFF_catalogue 0x101 0x1 = [''IFF_UP'']" by code_simp
  show "flags2names IFF_catalogue 0x101 0x101 = [''IFF_UP'', ''IFF_PROMISC'']" by code_simp
  have "distinct (map fst IFF_catalogue)"
    using wf_IFF_catalogue by (simp add: wf_catalogue_def)
  then show "n \<in> set (flags2names IFF_catalogue v m) \<longleftrightarrow> (f AND m AND v) = f"
    if "(n, f) \<in> set IFF_catalogue" using that by (rule flags2names_member)
qed

theorem names2flags_IFF_UP_not_IFF_PROMISC_witness:
  "(''IFF_PROMISC'', 0x100) \<in> set IFF_catalogue \<and>
   ''IFF_PROMISC'' \<notin> set (flags2names IFF_catalogue 0x1 0x101) \<and>
   ''IFF_PROMISC'' \<notin> set (flags2names IFF_catalogue 0x101 0x1) \<and>
   ''IFF_PROMISC'' \<in> set (flags2names IFF_catalogue 0x101 0x101)"
proof -
  have mem: "(''IFF_PROMISC'', 0x100) \<in> set IFF_catalogue"
    by (simp add: IFF_catalogue_def IFF_defs)
  from names2flags_IFF_UP_not_IFF_PROMISC [of "''IFF_PROMISC''" "0x100" "0x1" "0x101"]
    names2flags_IFF_UP_not_IFF_PROMISC [of "''IFF_PROMISC''" "0x100" "0x101" "0x1"]
    names2flags_IFF_UP_not_IFF_PROMISC [of "''IFF_PROMISC''" "0x100" "0x101" "0x101"] mem
  show ?thesis by simp
qed

section \<open>The message encoder\<close>

text \<open>
  Claim C10. When \<open>flags\<close> holds a collection of names, \<open>encode\<close> replaces it by
  the bit value and overwrites \<open>change\<close> by the touched mask of the same names,
  whatever \<open>change\<close> held, and the base encoder sees the message so changed (if a
  name is unknown, \<open>encode\<close> raises and the message is as it was). When \<open>flags\<close> is
  a number, the base encoder sees the message unchanged.
\<close>

theorem ifinfbase_encode_flags:
  "(msg_flags self = FlagNames L \<and> names2flags cat L = Inr (v, m) \<longrightarrow>
      ifinfbase_encode cat super_encode self =
        (super_encode (self\<lparr>msg_flags := FlagBits v, msg_change := m\<rparr>),
         self\<lparr>msg_flags := FlagBits v, msg_change := m\<rparr>)) \<and>
   (msg_flags self = FlagNames L \<and> names2flags cat L = Inl e \<longrightarrow>
      ifinfbase_encode cat super_encode self = (Inl e, self)) \<and>
   (msg_flags self = FlagBits n \<longrightarrow>
      ifinfbase_encode cat super_encode self = (super_encode self, self))"
  by (simp add: ifinfbase_encode_def Let_def)


theorem ifinfbase_encode_flags_witness:
  "ifinfbase_encode IFF_catalogue (ifinfmsg_encode_header LittleEndian)
      \<lparr>msg_family = 0, msg_ifi_type = 1, msg_index = 2,
       msg_flags = FlagNames [''IFF_UP'', ''!IFF_PROMISC''], msg_change = 0xFFFF\<rparr>
     = (Inr [0, 0, 1, 0, 2, 0, 0, 0, 1, 0, 0, 0, 1, 1, 0, 0],
        \<lparr>msg_family = 0, msg_ifi_type = 1, msg_index = 2,
         msg_flags = FlagBits 0x1, msg_change = 0x101\<rparr>) \<and>
   ifinfbase_encode IFF_catalogue (ifinfmsg_encode_header LittleEndian)
      \<lparr>msg_family = 0, msg_ifi_type = 1, msg_index = - 2,
       msg_flags = FlagBits 0x1043, msg_change = 0xFFFF\<rparr>
     = (Inr [0, 0, 1, 0, 0xFE, 0xFF, 0xFF, 0xFF, 0x43, 0x10, 0, 0, 0xFF, 0xFF, 0, 0],
        \<lparr>msg_family = 0, msg_ifi_type = 1, msg_index = - 2,
         msg_flags = FlagBits 0x1043, msg_change = 0xFFFF\<rparr>)"
proof -
  let ?a = "\<lparr>msg_family = 0, msg_ifi_type = 1, msg_index = 2,
       msg_flags = FlagNames [''IFF_UP'', ''!IFF_PROMISC''], msg_change = 0xFFFF\<rparr>"
  let ?b = "\<lparr>msg_family = 0, msg_ifi_type = 1, msg_index = - 2,
       msg_flags = FlagBits 0x1043, msg_change = 0xFFFF\<rparr>"
  have enc: "names2flags IFF_catalogue [''IFF_UP'', ''!IFF_PROMISC''] = Inr (0x1, 0x101)"
    by (simp add: names2flags_def IFF_NAMES_def IFF_catalogue_def IFF_defs)
  have h1: "ifinfmsg_encode_header LittleEndian
      \<lparr>msg_family = 0, msg_ifi_type = 1, msg_index = 2,
       msg_flags = FlagBits 0x1, msg_change = 0x101\<rparr>
     = Inr [0, 0, 1, 0, 2, 0, 0, 0, 1, 0, 0, 0, 1, 1, 0, 0]"
    by code_simp
  have h2: "ifinfmsg_encode_header LittleEndian ?b
     = Inr [0, 0, 1, 0, 0xFE, 0xFF, 0xFF, 0xFF, 0x43, 0x10, 0, 0, 0xFF, 0xFF, 0, 0]"
    by code_simp
  from ifinfbase_encode_flags [of ?a "[''IFF_UP'', ''!IFF_PROMISC'']" IFF_catalogue 1 "0x101"
      "ifinfmsg_encode_header LittleEndian"]
    ifinfbase_encode_flags [of ?b _ IFF_catalogue _ _ "ifinfmsg_encode_header LittleEndian" _ "0x1043"]
    enc h1 h2
  show ?thesis by simp
qed

section \<open>The link-info resolver\<close>

text \<open>
  Claim C5. When the sibling \<open>IFLA_INFO_KIND\<close> decoded so far is \<open>vlan\<close>,
  \<open>info_data\<close> returns the class \<open>vlan_data\<close>; when there is no such sibling, or its
  value is a string other than \<open>vlan\<close>, \<open>bond\<close> and \<open>veth\<close>, it returns \<open>hex\<close>. The
  function has no failing branch.
\<close>

theorem info_data_kind:
  "(get_attr self ''IFLA_INFO_KIND'' = Some (AsciiZ ''vlan'') \<longrightarrow> info_data self = vlan_data) \<and>
   (get_attr self ''IFLA_INFO_KIND'' = None \<longrightarrow> info_data self = hex) \<and>
   (get_attr self ''IFLA_INFO_KIND'' = Some (AsciiZ kind) \<and>
      kind \<notin> {''vlan'', ''bond'', ''veth''} \<longrightarrow> info_data self = hex)"
  by (simp add: info_data_def)

theorem info_data_kind_witness:
  "info_data [(''IFLA_INFO_KIND'', AsciiZ ''vlan''), (''IFLA_INFO_DATA'', Hex [1, 0, 2, 0])] = vlan_data \<and>
   info_data [(''IFLA_INFO_DATA'', Hex [1, 0, 2, 0])] = hex \<and>
   info_data [(''IFLA_INFO_KIND'', AsciiZ ''unknown-driver''), (''IFLA_INFO_DATA'', Hex [1, 0, 2, 0])] = hex"
proof -
  let ?a = "[(''IFLA_INFO_KIND'', AsciiZ ''vlan''), (''IFLA_INFO_DATA'', Hex [1, 0, 2, 0])]"
  let ?b = "[(''IFLA_INFO_DATA'', Hex [1, 0, 2, 0])]"
  let ?c = "[(''IFLA_INFO_KIND'', AsciiZ ''unknown-driver''), (''IFLA_INFO_DATA'', Hex [1, 0, 2, 0])]"
  from info_data_kind [of ?a] info_data_kind [of ?b] info_data_kind [of ?c "''unknown-driver''"]
  show ?thesis by (simp add: get_attr_def)
qed

section \<open>Fixed-width fields\<close>

lemma length_le_bytes: "length (le_bytes n v) = n"
  by (induction n arbitrary: v) auto

lemma length_ordered: "length (ordered bo bs) = length bs"
  by (cases bo) (auto simp: ordered_def)

lemma ordered_ordered: "ordered bo (ordered bo bs) = bs"
  by (cases bo) (auto simp: ordered_def)

lemma le_int_le_bytes: "le_int (le_bytes n v) = v mod 2 ^ (8 * n)"
proof (induction n arbitrary: v)
  case 0
  then show ?case by simp
next
  case (Suc n)
  have "le_int (le_bytes (Suc n) v) = v mod 256 + 256 * ((v div 256) mod 2 ^ (8 * n))"
    by (simp add: Suc uint_word_of_int)
  also have "\<dots> = v mod (256 * 2 ^ (8 * n))"
    using zmod_zmult2_eq [of "2 ^ (8 * n)" v 256] by simp
  also have "(256::int) * 2 ^ (8 * n) = 2 ^ (8 * Suc n)"
    by (simp add: power_add)
  finally show ?case .
qed

lemma pack_length: "pack bo fmt v = Inr bs \<Longrightarrow> calcsize fmt = Some (length bs)"
  by (auto simp: pack_def length_ordered length_le_bytes split: option.splits if_splits)

lemma pack_ok:
  "in_range fmt v \<Longrightarrow> \<exists>n. calcsize fmt = Some n \<and> pack bo fmt v = Inr (ordered bo (le_bytes n v))"
  by (auto simp: pack_def in_range_def split: option.splits)

lemma unpack_pack:
  assumes "pack bo fmt v = Inr bs"
  shows "unpack bo fmt bs = Inr v"
proof -
  from assms obtain n where n: "calcsize fmt = Some n" and r: "in_range fmt v"
    and bs: "bs = ordered bo (le_bytes n v)"
    by (auto simp: pack_def split: option.splits if_splits)
  have u: "le_int (ordered bo bs) = v mod 2 ^ (8 * n)"
    by (simp add: bs ordered_ordered le_int_le_bytes)
  show ?thesis
  proof (cases "fmt = ''i''")
    case True
    with n have n4: "n = 4" by (simp add: calcsize_def)
    from r True n4 have rng: "- 2147483648 \<le> v" "v < 2147483648"
      by (simp_all add: in_range_def calcsize_def)
    have "(2147483648 \<le> v mod 4294967296 \<longrightarrow> v mod 4294967296 - 4294967296 = v) \<and>
          (\<not> 2147483648 \<le> v mod 4294967296 \<longrightarrow> v mod 4294967296 = v)"
    proof (cases "v < 0")
      case True
      have "(v + 4294967296) mod 4294967296 = v + 4294967296"
        using rng True by (intro mod_pos_pos_trivial) auto
      then have "v mod 4294967296 = v + 4294967296" by simp
      with rng True show ?thesis by simp
    next
      case False
      then have "v mod 4294967296 = v" using rng by (intro mod_pos_pos_trivial) auto
      with rng show ?thesis by simp
    qed
    then show ?thesis
      using True n4 u by (simp add: unpack_def calcsize_def bs length_ordered length_le_bytes Let_def)
  next
    case False
    with r n have "0 \<le> v" "v < 2 ^ (8 * n)" by (simp_all add: in_range_def)
    then have "v mod 2 ^ (8 * n) = v" by simp
    with False n u show ?thesis
      by (simp add: unpack_def bs length_ordered length_le_bytes Let_def)
  qed
qed


lemma encode_fields_length:
  "encode_fields bo fs vals = Inr bs \<Longrightarrow> fields_size fs = Some (length bs)"
proof (induction fs arbitrary: bs)
  case Nil
  then show ?case by simp
next
  case (Cons f fs)
  obtain name fmt where f: "f = (name, fmt)" by (cases f)
  from Cons.prems f obtain b1 b2 where
    b1: "pack bo fmt (field_value vals name) = Inr b1" and
    b2: "encode_fields bo fs vals = Inr b2" and bs: "bs = b1 @ b2"
    by (auto split: sum.splits)
  from pack_length [OF b1] Cons.IH [OF b2] show ?case by (simp add: f bs)
qed

lemma encode_fields_ok:
  "\<forall>f\<in>set fs. in_range (snd f) (field_value vals (fst f)) \<Longrightarrow>
     \<exists>bs. encode_fields bo fs vals = Inr bs"
proof (induction fs)
  case Nil
  then show ?case by simp
next
  case (Cons f fs)
  obtain name fmt where f: "f = (name, fmt)" by (cases f)
  from Cons.prems f have "in_range fmt (field_value vals name)" by simp
  from pack_ok [OF this, of bo] obtain b1 where "pack bo fmt (field_value vals name) = Inr b1"
    by auto
  moreover from Cons obtain b2 where "encode_fields bo fs vals = Inr b2" by auto
  ultimately show ?case by (simp add: f)
qed

lemma decode_fields_consumes:
  "decode_fields bo fs bs vals = Inr (vals', rest) \<Longrightarrow>
     \<exists>n. fields_size fs = Some n \<and> n \<le> length bs \<and> rest = drop n bs"
proof (induction fs arbitrary: bs vals)
  case Nil
  then show ?case by simp
next
  case (Cons f fs)
  obtain name fmt where f: "f = (name, fmt)" by (cases f)
  from Cons.prems f obtain n v where n: "calcsize fmt = Some n" and len: "n \<le> length bs"
    and rec: "decode_fields bo fs (drop n bs) (vals(name \<mapsto> v)) = Inr (vals', rest)"
    by (auto split: option.splits if_splits sum.splits)
  from Cons.IH [OF rec] obtain k where
    k: "fields_size fs = Some k" "k \<le> length (drop n bs)" "rest = drop k (drop n bs)" by auto
  with n len show ?case by (auto simp: f add.commute)
qed

lemma decode_encode_fields:
  "encode_fields bo fs vals = Inr bs \<Longrightarrow>
     decode_fields bo fs (bs @ rest) acc = Inr (overlay fs vals acc, rest)"
proof (induction fs arbitrary: bs acc)
  case Nil
  then show ?case by (simp add: overlay_def)
next
  case (Cons f fs)
  obtain name fmt where f: "f = (name, fmt)" by (cases f)
  from Cons.prems f obtain b1 b2 where
    b1: "pack bo fmt (field_value vals name) = Inr b1" and
    b2: "encode_fields bo fs vals = Inr b2" and bs: "bs = b1 @ b2"
    by (auto split: sum.splits)
  have ov: "overlay fs vals (acc(name \<mapsto> field_value vals name)) = overlay (f # fs) vals acc"
    by (auto simp: overlay_def f)
  have "decode_fields bo (f # fs) (bs @ rest) acc =
      decode_fields bo fs (b2 @ rest) (acc(name \<mapsto> field_value vals name))"
    using pack_length [OF b1] unpack_pack [OF b1] by (simp add: f bs)
  also have "\<dots> = Inr (overlay fs vals (acc(name \<mapsto> field_value vals name)), rest)"
    by (rule Cons.IH [OF b2])
  finally show ?case by (simp only: ov)
qed

section \<open>The message header\<close>

lemma fields_size_header: "fields_size ifinfbase_fields = Some 16"
  by (simp add: ifinfbase_fields_def calcsize_def)

text \<open>
  Claim C1, as stated: the declared widths of the header fields sum to 12. They do
  not: one, one, two, four, four and four bytes are 16.
\<close>

theorem header_length_not_12: "fields_size ifinfbase_fields \<noteq> Some 12"
  by (simp add: ifinfbase_fields_def calcsize_def)

text \<open>
  Claim C1, amended. The widths of \<open>('B','B','H','i','I','I')\<close> sum to 16: an
  encoded header is exactly 16 bytes long, and decoding consumes exactly the first
  16 bytes of the buffer, leaving the attributes.
\<close>

theorem header_length_16:
  "fields_size ifinfbase_fields = Some 16 \<and>
   (encode_fields bo ifinfbase_fields vals = Inr bs \<longrightarrow> length bs = 16) \<and>
   (decode_fields bo ifinfbase_fields buf acc = Inr (vals', rest) \<longrightarrow>
      16 \<le> length buf \<and> rest = drop 16 buf)"
proof (intro conjI impI)
  show "fields_size ifinfbase_fields = Some 16" by (rule fields_size_header)
next
  assume "encode_fields bo ifinfbase_fields vals = Inr bs"
  from encode_fields_length [OF this] show "length bs = 16"
    by (simp add: fields_size_header)
next
  assume d: "decode_fields bo ifinfbase_fields buf acc = Inr (vals', rest)"
  from decode_fields_consumes [OF d] show "16 \<le> length buf" "rest = drop 16 buf"
    by (auto simp: fields_size_header)
qed

theorem header_length_16_witness:
  "encode_fields LittleEndian ifinfbase_fields
      [''family'' \<mapsto> 0, ''ifi_type'' \<mapsto> 1, ''index'' \<mapsto> 2, ''flags'' \<mapsto> 0x1043, ''change'' \<mapsto> 0]
     = Inr [0, 0, 1, 0, 2, 0, 0, 0, 0x43, 0x10, 0, 0, 0, 0, 0, 0] \<and>
   length [0, 0, 1, 0, 2, 0, 0, 0, 0x43, 0x10, 0, 0, 0, 0, 0, 0 :: byte] = 16 \<and>
   fst (projr (decode_fields LittleEndian ifinfbase_fields
      [0, 0, 1, 0, 2, 0, 0, 0, 0x43, 0x10, 0, 0, 0, 0, 0, 0, 8, 0, 3, 0] Map.empty)) ''flags'' = Some 0x1043 \<and>
   snd (projr (decode_fields LittleEndian ifinfbase_fields
      [0, 0, 1, 0, 2, 0, 0, 0, 0x43, 0x10, 0, 0, 0, 0, 0, 0, 8, 0, 3, 0] Map.empty)) = [8, 0, 3, 0]"
proof -
  let ?vals = "[''family'' \<mapsto> 0, ''ifi_type'' \<mapsto> 1, ''index'' \<mapsto> 2, ''flags'' \<mapsto> 0x1043, ''change'' \<mapsto> (0::int)]"
  let ?bs = "[0, 0, 1, 0, 2, 0, 0, 0, 0x43, 0x10, 0, 0, 0, 0, 0, 0 :: byte]"
  let ?buf = "?bs @ [8, 0, 3, 0]"
  have e: "encode_fields LittleEndian ifinfbase_fields ?vals = Inr ?bs"
    by code_simp
  have d: "decode_fields LittleEndian ifinfbase_fields ?buf Map.empty
      = Inr (overlay ifinfbase_fields ?vals Map.empty, [8, 0, 3, 0])"
    by (rule decode_encode_fields [OF e])
  have f: "overlay ifinfbase_fields ?vals Map.empty ''flags'' = Some 0x1043"
    by (simp add: overlay_def ifinfbase_fields_def field_value_def)
  from header_length_16 [where bo = LittleEndian and vals = ?vals and bs = ?bs and buf = ?buf
      and acc = Map.empty and vals' = "overlay ifinfbase_fields ?vals Map.empty"
      and rest = "[8, 0, 3, 0]"] e d f
  show ?thesis by simp
qed

section \<open>Operational state\<close>

lemma state_by_name_None: "name \<notin> set states \<Longrightarrow> state_by_name name = None"
  by (simp add: state_by_name_def py_dict_def py_enumerate_def states_def upt_rec [of _ 7] upt_rec [of _ "Suc _"])

lemma state_table:
  "map state_by_code [0, 1, 2, 3, 4, 5, 6] = map Some states \<and>
   map state_by_name states = map Some [0, 1, 2, 3, 4, 5, 6]"
  by code_simp

lemma pack_B: "0 \<le> v \<Longrightarrow> v < 256 \<Longrightarrow> pack bo ''B'' v = Inr [word_of_int v]"
  by (cases bo) (simp_all add: pack_def calcsize_def in_range_def ordered_def)

lemma unpack_B: "unpack bo ''B'' [b] = Inr (uint b)"
  by (cases bo) (simp_all add: unpack_def calcsize_def ordered_def)

text \<open>
  Claim C6. The byte \<open>0x06\<close> decodes to \<open>UP\<close>, the name \<open>DOWN\<close> encodes to the
  byte \<open>0x02\<close>, and a name outside the table of seven states, which the codes 0
  to 6 index in order, fails with \<open>UnknownStateName\<close>.
\<close>

theorem state_codec:
  "state_decode bo [0x06] = Inr ''UP'' \<and>
   state_encode bo ''DOWN'' = Inr [0x02] \<and>
   (name \<notin> set states \<longrightarrow> state_encode bo name = Inl (UnknownStateName name)) \<and>
   states = [''UNKNOWN'', ''NOTPRESENT'', ''DOWN'', ''LOWERLAYERDOWN'', ''TESTING'',
     ''DORMANT'', ''UP''] \<and>
   map state_by_code [0, 1, 2, 3, 4, 5, 6] = map Some states"
proof (intro conjI impI)
  have "state_by_code 6 = Some ''UP''" by code_simp
  then show "state_decode bo [0x06] = Inr ''UP''"
    by (simp add: state_decode_def state_fields_def calcsize_def unpack_B field_value_def)
  have "state_by_name ''DOWN'' = Some 2" by code_simp
  then show "state_encode bo ''DOWN'' = Inr [0x02]"
    by (simp add: state_encode_def state_fields_def pack_B field_value_def)
  show "state_encode bo name = Inl (UnknownStateName name)" if "name \<notin> set states"
    using state_by_name_None [OF that] by (simp add: state_encode_def)
  show "states = [''UNKNOWN'', ''NOTPRESENT'', ''DOWN'', ''LOWERLAYERDOWN'', ''TESTING'',
     ''DORMANT'', ''UP'']" by (rule states_def)
  show "map state_by_code [0, 1, 2, 3, 4, 5, 6] = map Some states"
    using state_table by simp
qed

theorem state_codec_witness:
  "''BOGUS'' \<notin> set states \<and>
   state_encode LittleEndian ''BOGUS'' = Inl (UnknownStateName ''BOGUS'') \<and>
   state_decode LittleEndian [0x06] = Inr ''UP'' \<and>
   state_encode LittleEndian ''DOWN'' = Inr [0x02]"
proof -
  have "''BOGUS'' \<notin> set states" by (simp add: states_def)
  with state_codec [of LittleEndian "''BOGUS''"] show ?thesis by simp
qed

section \<open>Counter blocks\<close>

lemma length_stats_names: "length stats_names = 23"
  by (simp add: stats_names_def)

lemma fields_size_map:
  "calcsize fmt = Some w \<Longrightarrow> fields_size (map (\<lambda>i. (i, fmt)) ns) = Some (w * length ns)"
  by (induction ns) auto

lemma overlay_complete:
  assumes "dom vals = fst ` set fs"
  shows "overlay fs vals Map.empty = vals"
proof
  fix k
  show "overlay fs vals Map.empty k = vals k"
  proof (cases "k \<in> fst ` set fs")
    case True
    with assms obtain v where "vals k = Some v" by auto
    with True show ?thesis by (simp add: overlay_def field_value_def)
  next
    case False
    with assms have "vals k = None" by auto
    with False show ?thesis by (simp add: overlay_def)
  qed
qed

lemma counters_roundtrip_aux:
  assumes w: "calcsize fmt = Some w" and fmt: "fmt \<noteq> ''i''"
    and dom: "dom vals = set ns"
    and rng: "\<forall>name\<in>set ns. \<forall>v. vals name = Some v \<longrightarrow> 0 \<le> v \<and> v < 2 ^ (8 * w)"
  shows "\<exists>bs. encode_counters bo (map (\<lambda>i. (i, fmt)) ns) vals = Inr bs \<and>
           length bs = w * length ns \<and>
           decode_counters bo (map (\<lambda>i. (i, fmt)) ns) bs = Inr vals"
proof -
  let ?fs = "map (\<lambda>i. (i, fmt)) ns"
  have names: "fst ` set ?fs = set ns" by (auto simp: image_iff)
  have "\<forall>f\<in>set ?fs. in_range (snd f) (field_value vals (fst f))"
  proof
    fix f assume "f \<in> set ?fs"
    then obtain name where f: "f = (name, fmt)" and name: "name \<in> set ns" by auto
    with dom obtain v where v: "vals name = Some v" by auto
    with rng name have "0 \<le> v \<and> v < 2 ^ (8 * w)" by blast
    with w fmt v show "in_range (snd f) (field_value vals (fst f))"
      by (simp add: f in_range_def field_value_def)
  qed
  from encode_fields_ok [OF this, of bo] obtain bs where
    bs: "encode_fields bo ?fs vals = Inr bs" by auto
  from encode_fields_length [OF bs] fields_size_map [OF w, of ns]
  have len: "length bs = w * length ns" by simp
  from decode_encode_fields [OF bs, of "[]" Map.empty]
  have "decode_fields bo ?fs bs Map.empty = Inr (overlay ?fs vals Map.empty, [])" by simp
  also have "overlay ?fs vals Map.empty = vals"
    by (rule overlay_complete) (simp only: dom names)
  finally have "decode_counters bo ?fs bs = Inr vals"
    using fields_size_map [OF w, of ns] len by (simp add: decode_counters_def)
  with bs len show ?thesis by (auto simp: encode_counters_def)
qed

text \<open>
  Claim C7. For a mapping that binds exactly the 23 counter names to numbers that
  fit the width (4 bytes for \<open>ifstats\<close>, 8 for \<open>ifstats64\<close>), encoding succeeds,
  yields width times 23 bytes, and decoding those bytes returns the mapping. The two
  field tables name the counters in the same order, that of \<open>stats_names\<close>.
\<close>

theorem counters_roundtrip:
  assumes "fs = ifstats_fields \<and> w = 4 \<or> fs = ifstats64_fields \<and> w = 8"
    and "dom vals = set stats_names"
    and "\<forall>name\<in>set stats_names. \<forall>v. vals name = Some v \<longrightarrow> 0 \<le> v \<and> v < 2 ^ (8 * w)"
  shows "(\<exists>bs. encode_counters bo fs vals = Inr bs \<and> length bs = w * 23 \<and>
            decode_counters bo fs bs = Inr vals) \<and>
         map fst ifstats_fields = stats_names \<and> map fst ifstats64_fields = stats_names \<and>
         length stats_names = 23"
proof -
  have "\<exists>bs. encode_counters bo fs vals = Inr bs \<and> length bs = w * length stats_names \<and>
            decode_counters bo fs bs = Inr vals"
  proof -
    from assms(1) consider "fs = ifstats_fields" "w = 4" | "fs = ifstats64_fields" "w = 8"
      by auto
    then show ?thesis
    proof cases
      case 1
      have "calcsize ''I'' = Some 4" "''I'' \<noteq> ''i''" by (simp_all add: calcsize_def)
      from counters_roundtrip_aux [OF this assms(2)] assms(3) 1
      show ?thesis unfolding ifstats_fields_def by simp
    next
      case 2
      have "calcsize ''Q'' = Some 8" "''Q'' \<noteq> ''i''" by (simp_all add: calcsize_def)
      from counters_roundtrip_aux [OF this assms(2)] assms(3) 2
      show ?thesis unfolding ifstats64_fields_def by simp
    qed
  qed
  moreover have "map fst ifstats_fields = stats_names" "map fst ifstats64_fields = stats_names"
    by (simp_all add: ifstats_fields_def ifstats64_fields_def comp_def)
  ultimately show ?thesis by (simp add: length_stats_names)
qed

lemma dom_sample_counters: "dom sample_counters = set stats_names"
  unfolding sample_counters_def by (rule dom_map_of_zip) (simp add: length_stats_names)

lemma ran_sample_counters:
  "\<forall>name\<in>set stats_names. \<forall>v. sample_counters name = Some v \<longrightarrow> 0 \<le> v \<and> v < 2 ^ (8 * 4)"
proof (intro ballI allI impI)
  fix name v assume "sample_counters name = Some v"
  then have "(name, v) \<in> set (zip stats_names (map int [1..<24]))"
    unfolding sample_counters_def by (rule map_of_SomeD)
  then have "v \<in> set (map int [1..<24])" by (rule set_zip_rightD)
  then show "0 \<le> v \<and> v < 2 ^ (8 * 4)" by auto
qed

theorem counters_roundtrip_witness:
  "dom sample_counters = set stats_names \<and>
   (\<exists>bs. encode_counters LittleEndian ifstats_fields sample_counters = Inr bs \<and>
       length bs = 92 \<and>
       decode_counters LittleEndian ifstats_fields bs = Inr sample_counters)"
proof -
  have "ifstats_fields = ifstats_fields \<and> (4::nat) = 4 \<or> ifstats_fields = ifstats64_fields \<and> (4::nat) = 8"
    by simp
  from counters_roundtrip [OF this dom_sample_counters ran_sample_counters, of LittleEndian]
    dom_sample_counters
  show ?thesis by simp
qed

section \<open>The network namespace attribute\<close>

lemma os_close_calls: "os_calls (snd (os_close fd os)) = os_calls os @ [OsClose fd]"
  by (simp add: os_close_def Let_def)

lemma netns_fd_close_calls:
  "filter is_open_call (os_calls (snd (netns_fd_close self os))) = filter is_open_call (os_calls os)"
  by (simp add: netns_fd_close_def os_close_calls split: option.splits)

lemma netns_fd_close_result:
  "(\<exists>os1. netns_fd_close self os = (Inr (), os1)) \<or>
   (\<exists>fd os1. self_netns_fd self = Some fd \<and> fd \<notin> set (os_open_fds os) \<and>
      netns_fd_close self os = (Inl (BadFileDescriptor fd), os1))"
  by (cases "self_netns_fd self") (simp_all add: netns_fd_close_def os_close_def Let_def)

lemma netns_fd_close_new_calls:
  "OsOpen path \<notin> set (drop (length (os_calls os)) (os_calls (snd (netns_fd_close self os))))"
  by (simp add: netns_fd_close_def os_close_calls split: option.splits)

lemma os_open_calls: "os_calls (snd (os_open path os)) = os_calls os @ [OsOpen path]"
  by (simp add: os_open_def Let_def)

lemma netns_fd_close_calls_prefix:
  "\<exists>cs. os_calls (snd (netns_fd_close self os)) = os_calls os @ cs \<and> OsOpen path \<notin> set cs"
  by (simp add: netns_fd_close_def os_close_calls split: option.splits)








text \<open>
  What \<open>encode\<close> does when the value is a number. It makes no open call. If the
  \<open>close\<close> it starts with succeeds (on a fresh object it does nothing), the number
  goes into the field for the wire and the object to the base encoder; if that
  \<open>close\<close> raises, \<open>encode\<close> raises the same error with the object untouched. An
  open call made during \<open>encode\<close> means the value is a name, and the path is that
  name under \<open>netns_run_dir\<close>.
\<close>

lemma netns_fd_encode_int_value_cases:
  "(self_value self = IntValue n \<longrightarrow>
      filter is_open_call (os_calls (snd (snd (netns_fd_encode nla_encode self os))))
        = filter is_open_call (os_calls os) \<and>
      (self_netns_fd self = None \<longrightarrow>
         netns_fd_encode nla_encode self os =
           (nla_encode (self\<lparr>self_field_value := Some n\<rparr>),
            self\<lparr>self_field_value := Some n\<rparr>, os)) \<and>
      (fst (netns_fd_close self os) = Inr () \<longrightarrow>
         netns_fd_encode nla_encode self os =
           (nla_encode (self\<lparr>self_field_value := Some n\<rparr>),
            self\<lparr>self_field_value := Some n\<rparr>, snd (netns_fd_close self os))) \<and>
      (fst (netns_fd_close self os) = Inl e \<longrightarrow>
         netns_fd_encode nla_encode self os = (Inl e, self, snd (netns_fd_close self os)))) \<and>
   (OsOpen path \<in> set (drop (length (os_calls os))
        (os_calls (snd (snd (netns_fd_encode nla_encode self os))))) \<longrightarrow>
      (\<exists>name. self_value self = NameValue name \<and> path = netns_run_dir @ ''/'' @ name))"
proof (intro conjI impI)
  assume v: "self_value self = IntValue n"
  obtain r os1 where c: "netns_fd_close self os = (r, os1)" by (cases "netns_fd_close self os")
  have enc: "netns_fd_encode nla_encode self os =
      (case r of Inl e \<Rightarrow> (Inl e, self, os1)
       | Inr u \<Rightarrow> (nla_encode (self\<lparr>self_field_value := Some n\<rparr>),
           self\<lparr>self_field_value := Some n\<rparr>, os1))"
    using v c by (simp add: netns_fd_encode_def Let_def split: sum.splits)
  have "os_calls (snd (snd (netns_fd_encode nla_encode self os))) = os_calls os1"
    by (simp add: enc split: sum.splits)
  with netns_fd_close_calls [of self os] c
  show "filter is_open_call (os_calls (snd (snd (netns_fd_encode nla_encode self os))))
        = filter is_open_call (os_calls os)" by simp
  show "netns_fd_encode nla_encode self os =
           (nla_encode (self\<lparr>self_field_value := Some n\<rparr>),
            self\<lparr>self_field_value := Some n\<rparr>, os)" if "self_netns_fd self = None"
    using that v by (simp add: netns_fd_encode_def netns_fd_close_def Let_def)
  show "netns_fd_encode nla_encode self os =
           (nla_encode (self\<lparr>self_field_value := Some n\<rparr>),
            self\<lparr>self_field_value := Some n\<rparr>, snd (netns_fd_close self os))"
    if "fst (netns_fd_close self os) = Inr ()"
    using that c by (simp add: enc)
  show "netns_fd_encode nla_encode self os = (Inl e, self, snd (netns_fd_close self os))"
    if "fst (netns_fd_close self os) = Inl e"
    using that c by (simp add: enc)
next
  assume new: "OsOpen path \<in> set (drop (length (os_calls os))
        (os_calls (snd (snd (netns_fd_encode nla_encode self os)))))"
  obtain r os1 where c: "netns_fd_close self os = (r, os1)" by (cases "netns_fd_close self os")
  from netns_fd_close_calls_prefix [of self os path] c obtain cs where
    cs: "os_calls os1 = os_calls os @ cs" "OsOpen path \<notin> set cs" by auto
  show "\<exists>name. self_value self = NameValue name \<and> path = netns_run_dir @ ''/'' @ name"
  proof (cases "self_value self")
    case (IntValue n)
    have "os_calls (snd (snd (netns_fd_encode nla_encode self os))) = os_calls os1"
      using IntValue c by (simp add: netns_fd_encode_def Let_def split: sum.splits)
    with new cs show ?thesis by simp
  next
    case (NameValue name)
    let ?p = "netns_run_dir @ ''/'' @ name"
    have "os_calls (snd (snd (netns_fd_encode nla_encode self os))) = os_calls os1 \<or>
          os_calls (snd (snd (netns_fd_encode nla_encode self os))) = os_calls os1 @ [OsOpen ?p]"
      using NameValue c os_open_calls [of ?p os1]
      by (cases "os_open ?p os1") (auto simp: netns_fd_encode_def Let_def split: sum.splits)
    with new cs have "path = ?p" by auto
    with NameValue show ?thesis by simp
  qed
qed

text \<open>
  Claim C8 says that every \<open>encode\<close> of a number puts that number on the wire. It
  fails on an object that is encoded three times, by name, then with 7, then with 8.
  The first call opens descriptor 3 and records it. The second closes it and writes
  7, but \<open>close\<close> leaves the record in place. The third, starting with \<open>close\<close>,
  closes descriptor 3 again: \<open>os.close\<close> raises, and \<open>encode\<close> ends before the field
  for the wire is assigned, which still holds 7. No call with a number opens anything.
\<close>

theorem netns_fd_encode_int_stale_descriptor:
  "netns_fd_encode (netns_fd_nla_encode LittleEndian)
      \<lparr>self_value = NameValue ''ns1'', self_field_value = None, self_netns_fd = None\<rparr>
      \<lparr>os_files = [''/var/run/netns/ns1''], os_open_fds = [0, 1, 2], os_calls = []\<rparr>
    = (Inr [3, 0, 0, 0],
       \<lparr>self_value = NameValue ''ns1'', self_field_value = Some 3, self_netns_fd = Some 3\<rparr>,
       \<lparr>os_files = [''/var/run/netns/ns1''], os_open_fds = [3, 0, 1, 2],
        os_calls = [OsOpen ''/var/run/netns/ns1'']\<rparr>) \<and>
   netns_fd_encode (netns_fd_nla_encode LittleEndian)
      \<lparr>self_value = IntValue 7, self_field_value = Some 3, self_netns_fd = Some 3\<rparr>
      \<lparr>os_files = [''/var/run/netns/ns1''], os_open_fds = [3, 0, 1, 2],
       os_calls = [OsOpen ''/var/run/netns/ns1'']\<rparr>
    = (Inr [7, 0, 0, 0],
       \<lparr>self_value = IntValue 7, self_field_value = Some 7, self_netns_fd = Some 3\<rparr>,
       \<lparr>os_files = [''/var/run/netns/ns1''], os_open_fds = [0, 1, 2],
        os_calls = [OsOpen ''/var/run/netns/ns1'', OsClose 3]\<rparr>) \<and>
   netns_fd_encode (netns_fd_nla_encode LittleEndian)
      \<lparr>self_value = IntValue 8, self_field_value = Some 7, self_netns_fd = Some 3\<rparr>
      \<lparr>os_files = [''/var/run/netns/ns1''], os_open_fds = [0, 1, 2],
       os_calls = [OsOpen ''/var/run/netns/ns1'', OsClose 3]\<rparr>
    = (Inl (BadFileDescriptor 3),
       \<lparr>self_value = IntValue 8, self_field_value = Some 7, self_netns_fd = Some 3\<rparr>,
       \<lparr>os_files = [''/var/run/netns/ns1''], os_open_fds = [0, 1, 2],
        os_calls = [OsOpen ''/var/run/netns/ns1'', OsClose 3, OsClose 3]\<rparr>)"
  by code_simp

end
